theory Spec2Isabelle
  imports Complex_Main
begin

section \<open>Data model\<close>

text \<open>
  The program is a houseplant monitor written in Python.  Its measurements are Python
  floats; they are modelled as real numbers, so the comparisons and clamps below are the
  mathematical ones (NaN and infinities are outside the model).  Python strings are
  modelled as character lists.  A timestamp is the number of a clock tick.

  The bar gauge \<open>create_bar\<close> of display.py is not modelled: the number of filled
  characters is the truncation of a product of doubles, so it depends on how the
  difference, the quotient and the product are rounded, which real arithmetic does not
  show.
\<close>

record SensorReading =
  timestamp :: nat
  temperature_c :: real
  humidity_percent :: real
  co2_ppm :: real
  light_lux :: real

text \<open>The module-level table \<open>OPTIMAL_RANGES\<close> of display.py: one pair (low, high) per metric.\<close>

record ranges =
  temperature :: "real \<times> real"
  humidity :: "real \<times> real"
  co2 :: "real \<times> real"
  light :: "real \<times> real"

definition OPTIMAL_RANGES :: ranges where
  "OPTIMAL_RANGES =
     \<lparr> temperature = (18, 26), humidity = (50, 70), co2 = (400, 800), light = (2000, 10000) \<rparr>"

section \<open>display.py: classifier\<close>

definition get_status_indicator :: "real \<Rightarrow> real \<times> real \<Rightarrow> string" where
  "get_status_indicator v optimal_range =
     (case optimal_range of (low, high) \<Rightarrow>
        if low \<le> v \<and> v \<le> high then ''[OK]''
        else if v < low then ''[LOW]''
        else ''[HIGH]'')"

section \<open>ai\_advisor.py: fallback advisor\<close>

text \<open>
  \<open>issues_of\<close> is the list \<open>issues\<close> as it stands just before the final test of
  \<open>_get_fallback_recommendation\<close>: four \<open>if\<close>/\<open>elif\<close> blocks, each appending at most
  one sentence.  The table the method reads from the module is an explicit argument.
\<close>

definition issues_of :: "ranges \<Rightarrow> SensorReading \<Rightarrow> string list" where
  "issues_of tbl reading =
     (let issues = [];
          issues = (case temperature tbl of (temp_low, temp_high) \<Rightarrow>
             if temperature_c reading < temp_low
               then issues @ [''Temperature too low - consider warming the area'']
             else if temperature_c reading > temp_high
               then issues @ [''Temperature too high - improve ventilation'']
             else issues);
          issues = (case humidity tbl of (hum_low, hum_high) \<Rightarrow>
             if humidity_percent reading < hum_low
               then issues @ [''Humidity too low - mist leaves or use humidifier'']
             else if humidity_percent reading > hum_high
               then issues @ [''Humidity too high - improve air circulation'']
             else issues);
          issues = (case co2 tbl of (co2_low, co2_high) \<Rightarrow>
             if co2_ppm reading < co2_low
               then issues @ [''CO2 below normal - ensure adequate ventilation'']
             else if co2_ppm reading > co2_high
               then issues @ [''CO2 elevated - increase fresh air exchange'']
             else issues);
          issues = (case light tbl of (light_low, light_high) \<Rightarrow>
             if light_lux reading < light_low
               then issues @ [''Light insufficient - move closer to window or add grow light'']
             else if light_lux reading > light_high
               then issues @ [''Light too intense - add shade or move plant'']
             else issues)
      in issues)"

text \<open>Python's \<open>sep.join(xs)\<close>.\<close>

fun join :: "string \<Rightarrow> string list \<Rightarrow> string" where
  "join sep [] = []"
| "join sep [x] = x"
| "join sep (x # y # ys) = x @ sep @ join sep (y # ys)"

definition all_clear :: string where
  "all_clear = ''All conditions optimal! Your avocado plant is in a great environment.''"

definition fallback_with :: "ranges \<Rightarrow> SensorReading \<Rightarrow> string" where
  "fallback_with tbl reading =
     (let issues = issues_of tbl reading
      in if issues = [] then all_clear else join '' | '' (take 2 issues))"

definition get_fallback_recommendation :: "SensorReading \<Rightarrow> string" where
  "get_fallback_recommendation reading = fallback_with OPTIMAL_RANGES reading"

text \<open>
  The advisory sentence of a metric as the specification words it: classify the value
  with the range classifier, and pick the sentence of the metric and direction.
\<close>

definition advisory_of :: "string \<Rightarrow> string \<Rightarrow> real \<Rightarrow> real \<times> real \<Rightarrow> string list" where
  "advisory_of low_text high_text v rng =
     (let s = get_status_indicator v rng
      in if s = ''[LOW]'' then [low_text] else if s = ''[HIGH]'' then [high_text] else [])"

definition spec_issues :: "ranges \<Rightarrow> SensorReading \<Rightarrow> string list" where
  "spec_issues tbl reading =
     advisory_of ''Temperature too low - consider warming the area''
                 ''Temperature too high - improve ventilation''
                 (temperature_c reading) (temperature tbl)
     @ advisory_of ''Humidity too low - mist leaves or use humidifier''
                   ''Humidity too high - improve air circulation''
                   (humidity_percent reading) (humidity tbl)
     @ advisory_of ''CO2 below normal - ensure adequate ventilation''
                   ''CO2 elevated - increase fresh air exchange''
                   (co2_ppm reading) (co2 tbl)
     @ advisory_of ''Light insufficient - move closer to window or add grow light''
                   ''Light too intense - add shade or move plant''
                   (light_lux reading) (light tbl)"

text \<open>The number of positions of a text at which a pattern starts.\<close>

fun count_sub :: "string \<Rightarrow> string \<Rightarrow> nat" where
  "count_sub p [] = 0"
| "count_sub p (c # cs) = (if take (length p) (c # cs) = p then 1 else 0) + count_sub p cs"

text \<open>
  Python's \<open>str.lower\<close> on the code points below 256, and the test \<open>p in s\<close>.
\<close>

definition to_lower :: "char \<Rightarrow> char" where
  "to_lower c =
     (let n = (of_char c :: nat)
      in if (65 \<le> n \<and> n \<le> 90) \<or> (192 \<le> n \<and> n \<le> 222 \<and> n \<noteq> 215)
         then char_of (n + 32) else c)"

fun contains :: "string \<Rightarrow> string \<Rightarrow> bool" where
  "contains p [] = (p = [])"
| "contains p (c # cs) = (take (length p) (c # cs) = p \<or> contains p cs)"

section \<open>sensors.py: mock simulator\<close>

text \<open>
  \<open>MockSensors.read\<close> draws four numbers from \<open>random.uniform\<close> and reads the clock.
  The four draws and the clock are explicit arguments of the model.
\<close>

record MockSensors =
  base_temp :: real
  base_humidity :: real
  base_co2 :: real
  base_light :: real

definition MockSensors_init :: MockSensors where
  "MockSensors_init =
     \<lparr> base_temp = 22.0, base_humidity = 65.0, base_co2 = 450.0, base_light = 5000.0 \<rparr>"

definition MockSensors_read ::
  "MockSensors \<Rightarrow> nat \<Rightarrow> real \<Rightarrow> real \<Rightarrow> real \<Rightarrow> real \<Rightarrow> SensorReading" where
  "MockSensors_read self now u_temp u_hum u_co2 u_light =
     \<lparr> timestamp = now,
       temperature_c = base_temp self + u_temp,
       humidity_percent = max 0 (min 100 (base_humidity self + u_hum)),
       co2_ppm = max 300 (base_co2 self + u_co2),
       light_lux = max 0 (base_light self + u_light) \<rparr>"

section \<open>display.py: word wrap of the advisory text\<close>

text \<open>
  The characters below 256 that Python's \<open>str.split()\<close> and \<open>str.strip()\<close> treat as
  white space.
\<close>

definition is_space :: "char \<Rightarrow> bool" where
  "is_space c =
     (let n = (of_char c :: nat)
      in (9 \<le> n \<and> n \<le> 13) \<or> (28 \<le> n \<and> n \<le> 32) \<or> n = 133 \<or> n = 160)"

fun split_from :: "string \<Rightarrow> string \<Rightarrow> string list" where
  "split_from cur [] = (if cur = [] then [] else [cur])"
| "split_from cur (c # cs) =
     (if is_space c then (if cur = [] then split_from [] cs else cur # split_from [] cs)
      else split_from (cur @ [c]) cs)"

definition split :: "string \<Rightarrow> string list" where
  "split s = split_from [] s"

definition strip :: "string \<Rightarrow> string" where
  "strip s = rev (dropWhile is_space (rev (dropWhile is_space s)))"

text \<open>
  One turn of the loop \<open>for word in words\<close> of \<open>display_reading\<close>, on the pair of the
  current line and the lines printed so far.
\<close>

definition wrap_step :: "string \<times> string list \<Rightarrow> string \<Rightarrow> string \<times> string list" where
  "wrap_step st word =
     (case st of (line, printed) \<Rightarrow>
        if length line + length word + 1 > 58 then (''  '' @ word, printed @ [line])
        else (line @ (if line \<noteq> ''  '' then '' '' @ word else word), printed))"

definition wrap_lines :: "string \<Rightarrow> string list" where
  "wrap_lines ai_recommendation =
     (case foldl wrap_step (''  '', []) (split ai_recommendation) of (line, printed) \<Rightarrow>
        if strip line \<noteq> [] then printed @ [line] else printed)"

definition all_within :: "nat \<Rightarrow> string list \<Rightarrow> bool" where
  "all_within n xs = list_all (\<lambda>x. length x \<le> n) xs"

text \<open>
  A word is a non-empty text without white space.  \<open>indent_line ws\<close> is the line that
  holds the words \<open>ws\<close>: the indent, then the words with one space between them.
\<close>

definition solid :: "string \<Rightarrow> bool" where
  "solid w = (w \<noteq> [] \<and> list_all (\<lambda>c. \<not> is_space c) w)"

definition indent_line :: "string list \<Rightarrow> string" where
  "indent_line ws = ''  '' @ join '' '' ws"

section \<open>ai\_advisor.py: recommendation with fallback\<close>

text \<open>
  The recommendation service is an argument of the model: a client maps the prompt to
  either a raised exception or a response, which is a list of content blocks of which
  only some kinds carry a \<open>text\<close> attribute.  The prompt is built with Python's float
  formatting, which is kept abstract as the argument \<open>build_prompt\<close>.  The
  exceptions of the model are the instances of \<open>Exception\<close>, which is what the
  handler of \<open>get_recommendation\<close> catches; stopping the whole process with an
  interrupt is not a failure of the service and is outside the model.
\<close>

datatype py_error = IndexError | AttributeError | ServiceError string

datatype content_block = TextBlock string | OtherBlock

type_synonym messages_create = "string \<Rightarrow> py_error + content_block list"

record AIAdvisor =
  advisor_key :: "string option"
  advisor_client :: "messages_create option"

text \<open>Python's \<open>a or b\<close> on optional strings: \<open>a\<close> when it is neither None nor empty.\<close>

definition truthy :: "string option \<Rightarrow> bool" where
  "truthy a = (case a of None \<Rightarrow> False | Some s \<Rightarrow> s \<noteq> [])"

definition py_or :: "string option \<Rightarrow> string option \<Rightarrow> string option" where
  "py_or a b = (if truthy a then a else b)"

definition AIAdvisor_init ::
  "(string \<Rightarrow> messages_create) \<Rightarrow> string option \<Rightarrow> string option \<Rightarrow> AIAdvisor" where
  "AIAdvisor_init anthropic api_key env_key =
     (let k = py_or api_key env_key
      in \<lparr> advisor_key = k,
           advisor_client = (case k of None \<Rightarrow> None
                             | Some s \<Rightarrow> if s \<noteq> [] then Some (anthropic s) else None) \<rparr>)"

text \<open>\<open>response.content[0].text\<close>.\<close>

definition first_text :: "content_block list \<Rightarrow> py_error + string" where
  "first_text content =
     (case content of [] \<Rightarrow> Inl IndexError
      | OtherBlock # _ \<Rightarrow> Inl AttributeError
      | TextBlock t # _ \<Rightarrow> Inr t)"

text \<open>The body of the \<open>try\<close> block of \<open>get_recommendation\<close>.\<close>

definition ask_service :: "messages_create \<Rightarrow> string \<Rightarrow> py_error + string" where
  "ask_service create prompt =
     (case create prompt of Inl e \<Rightarrow> Inl e | Inr content \<Rightarrow> first_text content)"

definition get_recommendation ::
  "(SensorReading \<Rightarrow> string) \<Rightarrow> AIAdvisor \<Rightarrow> SensorReading \<Rightarrow> py_error + string" where
  "get_recommendation build_prompt self reading =
     (case advisor_client self of
        None \<Rightarrow> Inr (get_fallback_recommendation reading)
      | Some create \<Rightarrow>
          (let prompt = build_prompt reading
           in case ask_service create prompt of
                Inr t \<Rightarrow> Inr t
              | Inl e \<Rightarrow> Inr (get_fallback_recommendation reading)))"

section \<open>api\_client.py: telemetry push\<close>

datatype json = JStr string | JNum real | JObj "(string \<times> json) list"

record request =
  url :: string
  body :: json
  headers :: "(string \<times> string) list"

text \<open>
  What the client calls outside itself: \<open>httpx.post\<close>, which answers a status code or
  raises, the clock, and the ISO formatting of a timestamp.
\<close>

record world =
  post :: "request \<Rightarrow> py_error + int"
  clock :: nat
  isoformat :: "nat \<Rightarrow> string"

record APIClient =
  base_url :: "string option"
  api_key :: "string option"
  enabled :: bool

definition APIClient_init ::
  "string option \<Rightarrow> string option \<Rightarrow> string option \<Rightarrow> string option \<Rightarrow> APIClient" where
  "APIClient_init url_arg key_arg env_url env_key =
     (let u = py_or url_arg env_url; k = py_or key_arg env_key
      in \<lparr> base_url = u, api_key = k, enabled = (truthy u \<and> truthy k) \<rparr>)"

text \<open>An optional string inside an f-string.\<close>

definition fmt :: "string option \<Rightarrow> string" where
  "fmt a = (case a of None \<Rightarrow> ''None'' | Some s \<Rightarrow> s)"

definition client_headers :: "APIClient \<Rightarrow> (string \<times> string) list" where
  "client_headers self =
     [(''Authorization'', ''Bearer '' @ fmt (api_key self)),
      (''Content-Type'', ''application/json'')]"

definition metrics_json :: "SensorReading \<Rightarrow> (string \<times> json) list" where
  "metrics_json reading =
     [(''temperature_c'', JNum (temperature_c reading)),
      (''humidity_percent'', JNum (humidity_percent reading)),
      (''co2_ppm'', JNum (co2_ppm reading)),
      (''light_lux'', JNum (light_lux reading))]"

text \<open>
  The \<open>try\<close> block shared by the three push operations: one POST, True on status 200,
  False on any other status and on any exception.  The second component of the result
  is the list of requests handed to \<open>httpx.post\<close>.
\<close>

definition send :: "world \<Rightarrow> request \<Rightarrow> (py_error + bool) \<times> request list" where
  "send w req =
     (case post w req of
        Inr status_code \<Rightarrow> (Inr (status_code = 200), [req])
      | Inl e \<Rightarrow> (Inr False, [req]))"

definition reading_request :: "world \<Rightarrow> APIClient \<Rightarrow> SensorReading \<Rightarrow> request" where
  "reading_request w self reading =
     \<lparr> url = fmt (base_url self) @ ''/readings'',
       body = JObj ((''timestamp'', JStr (isoformat w (timestamp reading))) # metrics_json reading),
       headers = client_headers self \<rparr>"

definition push_reading ::
  "world \<Rightarrow> APIClient \<Rightarrow> SensorReading \<Rightarrow> (py_error + bool) \<times> request list" where
  "push_reading w self reading =
     (if \<not> enabled self then (Inr False, [])
      else send w (reading_request w self reading))"

definition analysis_request ::
  "world \<Rightarrow> APIClient \<Rightarrow> SensorReading \<Rightarrow> string \<Rightarrow> request" where
  "analysis_request w self reading recommendation =
     \<lparr> url = fmt (base_url self) @ ''/analysis'',
       body = JObj [(''timestamp'', JStr (isoformat w (clock w))),
                    (''reading'', JObj (metrics_json reading)),
                    (''recommendation'', JStr recommendation)],
       headers = client_headers self \<rparr>"

definition push_analysis ::
  "world \<Rightarrow> APIClient \<Rightarrow> SensorReading \<Rightarrow> string \<Rightarrow> (py_error + bool) \<times> request list" where
  "push_analysis w self reading recommendation =
     (if \<not> enabled self then (Inr False, [])
      else send w (analysis_request w self reading recommendation))"

definition alert_request ::
  "world \<Rightarrow> APIClient \<Rightarrow> string \<Rightarrow> string \<Rightarrow> SensorReading option \<Rightarrow> request" where
  "alert_request w self alert_type message reading =
     \<lparr> url = fmt (base_url self) @ ''/alerts'',
       body = JObj ([(''timestamp'', JStr (isoformat w (clock w))),
                     (''type'', JStr alert_type),
                     (''message'', JStr message)]
                    @ (case reading of None \<Rightarrow> []
                       | Some r \<Rightarrow> [(''reading'', JObj (metrics_json r))])),
       headers = client_headers self \<rparr>"

definition push_alert ::
  "world \<Rightarrow> APIClient \<Rightarrow> string \<Rightarrow> string \<Rightarrow> SensorReading option
     \<Rightarrow> (py_error + bool) \<times> request list" where
  "push_alert w self alert_type message reading =
     (if \<not> enabled self then (Inr False, [])
      else send w (alert_request w self alert_type message reading))"

section \<open>Classifier\<close>

text \<open>
  C2.  For a range with low < high the classifier answers [OK] exactly on the closed
  interval from low to high, [LOW] exactly below low and [HIGH] exactly above high; both
  boundary values are [OK].
\<close>

theorem classifier_exact:
  assumes "low < high"
  shows "(get_status_indicator v (low, high) = ''[OK]'' \<longleftrightarrow> low \<le> v \<and> v \<le> high)
       \<and> (get_status_indicator v (low, high) = ''[LOW]'' \<longleftrightarrow> v < low)
       \<and> (get_status_indicator v (low, high) = ''[HIGH]'' \<longleftrightarrow> v > high)
       \<and> get_status_indicator low (low, high) = ''[OK]''
       \<and> get_status_indicator high (low, high) = ''[OK]''"
  using assms by (auto simp add: get_status_indicator_def)

theorem classifier_exact_witness:
  "(18::real) < 26
   \<and> get_status_indicator 18 (18, 26) = ''[OK]''
   \<and> get_status_indicator 26 (18, 26) = ''[OK]''
   \<and> (get_status_indicator 10 (18, 26) = ''[LOW]'' \<longleftrightarrow> (10::real) < 18)
   \<and> (get_status_indicator 30 (18, 26) = ''[HIGH]'' \<longleftrightarrow> (30::real) > 26)"
  using classifier_exact [of 18 26 10] classifier_exact [of 18 26 30] by simp

section \<open>Fallback advisor\<close>

lemma issues_of_spec: "issues_of tbl r = spec_issues tbl r"
  by (simp add: issues_of_def spec_issues_def advisory_of_def get_status_indicator_def
        split: prod.splits)

lemma advisory_of_length: "length (advisory_of lo hi v rng) \<le> 1"
  by (simp add: advisory_of_def Let_def)

lemma advisory_of_bar:
  "CHR ''|'' \<notin> set lo \<Longrightarrow> CHR ''|'' \<notin> set hi \<Longrightarrow> s \<in> set (advisory_of lo hi v rng) \<Longrightarrow> CHR ''|'' \<notin> set s"
  by (auto simp add: advisory_of_def Let_def split: if_splits)

lemma spec_issues_bar: "s \<in> set (spec_issues tbl r) \<Longrightarrow> CHR ''|'' \<notin> set s"
  unfolding spec_issues_def set_append Un_iff
  by (elim disjE; erule advisory_of_bar [rotated 2]; simp)

lemma count_sub_le: "count_sub '' | '' s \<le> count_list (tl s) CHR ''|''"
proof (induction s)
  case Nil
  show ?case by simp
next
  case (Cons c cs)
  show ?case
  proof (cases cs)
    case Nil
    then show ?thesis by simp
  next
    case (Cons d ds)
    with Cons.IH show ?thesis by (cases ds) auto
  qed
qed

lemma count_list_zero: "c \<notin> set s \<Longrightarrow> count_list s c = 0"
  by (induction s) auto

lemma count_list_tl: "count_list (tl s) c \<le> count_list s c"
  by (cases s) auto

lemma join_two_sep:
  assumes "length xs \<le> 2" and "\<forall>s \<in> set xs. CHR ''|'' \<notin> set s"
  shows "count_sub '' | '' (join '' | '' xs) \<le> 1"
proof -
  have "count_list (join '' | '' xs) CHR ''|'' \<le> 1"
  proof (cases xs)
    case Nil
    then show ?thesis by simp
  next
    case (Cons x ys)
    show ?thesis
    proof (cases ys)
      case Nil
      with Cons assms show ?thesis by (simp add: count_list_zero)
    next
      case (Cons y zs)
      with \<open>xs = x # ys\<close> assms have "zs = []" by simp
      with Cons \<open>xs = x # ys\<close> assms show ?thesis by (simp add: count_list_zero)
    qed
  qed
  with count_sub_le [of "join '' | '' xs"] count_list_tl [of "join '' | '' xs" "CHR ''|''"]
  show ?thesis by linarith
qed

lemma all_clear_sep: "count_sub '' | '' all_clear = 0"
  using count_sub_le [of all_clear] by (simp add: all_clear_def)

text \<open>
  C1.  The fallback advisor looks at temperature, humidity, CO2 and light in this order,
  collects the sentence of every metric that the classifier puts below or above its
  range, and returns the first two collected sentences joined by " | " (the all-clear
  message when there is none).  So at most two sentences are shown, and the separator
  starts at no more than one position of the returned text.
\<close>

theorem fallback_top_two:
  "fallback_with tbl r =
     (if spec_issues tbl r = [] then all_clear else join '' | '' (take 2 (spec_issues tbl r)))
   \<and> get_fallback_recommendation r = fallback_with OPTIMAL_RANGES r
   \<and> length (take 2 (spec_issues tbl r)) \<le> 2
   \<and> count_sub '' | '' (fallback_with tbl r) \<le> 1"
proof -
  have eq: "fallback_with tbl r =
     (if spec_issues tbl r = [] then all_clear else join '' | '' (take 2 (spec_issues tbl r)))"
    by (simp add: fallback_with_def Let_def issues_of_spec)
  have "\<forall>s \<in> set (take 2 (spec_issues tbl r)). CHR ''|'' \<notin> set s"
    using spec_issues_bar by (meson in_set_takeD)
  then have "count_sub '' | '' (join '' | '' (take 2 (spec_issues tbl r))) \<le> 1"
    by (intro join_two_sep) simp_all
  with eq all_clear_sep show ?thesis by (simp add: get_fallback_recommendation_def)
qed

text \<open>
  C3.  The reading with temperature 35, humidity 20, CO2 1200 and light 500 is classified
  [HIGH], [LOW], [HIGH], [LOW] against the standard ranges, and its fallback advisory is
  the high-temperature sentence followed by the low-humidity sentence.
\<close>

theorem scenario_all_out_of_range:
  "get_status_indicator 35 (temperature OPTIMAL_RANGES) = ''[HIGH]''
   \<and> get_status_indicator 20 (humidity OPTIMAL_RANGES) = ''[LOW]''
   \<and> get_status_indicator 1200 (co2 OPTIMAL_RANGES) = ''[HIGH]''
   \<and> get_status_indicator 500 (light OPTIMAL_RANGES) = ''[LOW]''
   \<and> OPTIMAL_RANGES =
       \<lparr> temperature = (18, 26), humidity = (50, 70), co2 = (400, 800), light = (2000, 10000) \<rparr>
   \<and> issues_of OPTIMAL_RANGES
        \<lparr> timestamp = t, temperature_c = 35, humidity_percent = 20, co2_ppm = 1200,
          light_lux = 500 \<rparr>
      = [''Temperature too high - improve ventilation'',
         ''Humidity too low - mist leaves or use humidifier'',
         ''CO2 elevated - increase fresh air exchange'',
         ''Light insufficient - move closer to window or add grow light'']
   \<and> get_fallback_recommendation
        \<lparr> timestamp = t, temperature_c = 35, humidity_percent = 20, co2_ppm = 1200,
          light_lux = 500 \<rparr>
      = ''Temperature too high - improve ventilation | Humidity too low - mist leaves or use humidifier''"
  by (simp add: get_status_indicator_def get_fallback_recommendation_def fallback_with_def
        issues_of_def OPTIMAL_RANGES_def)

text \<open>
  C6.  When each of the four metrics lies in its range, boundaries included, the fallback
  advisor returns the all-clear message, and the lower-cased message contains "optimal".
\<close>

theorem in_range_all_clear:
  assumes "fst (temperature tbl) \<le> temperature_c r" and "temperature_c r \<le> snd (temperature tbl)"
    and "fst (humidity tbl) \<le> humidity_percent r" and "humidity_percent r \<le> snd (humidity tbl)"
    and "fst (co2 tbl) \<le> co2_ppm r" and "co2_ppm r \<le> snd (co2 tbl)"
    and "fst (light tbl) \<le> light_lux r" and "light_lux r \<le> snd (light tbl)"
  shows "fallback_with tbl r = all_clear
       \<and> contains ''optimal'' (map to_lower (fallback_with tbl r))"
proof -
  from assms have n:
    "\<not> temperature_c r < fst (temperature tbl)" "\<not> snd (temperature tbl) < temperature_c r"
    "\<not> humidity_percent r < fst (humidity tbl)" "\<not> snd (humidity tbl) < humidity_percent r"
    "\<not> co2_ppm r < fst (co2 tbl)" "\<not> snd (co2 tbl) < co2_ppm r"
    "\<not> light_lux r < fst (light tbl)" "\<not> snd (light tbl) < light_lux r"
    by simp_all
  have "issues_of tbl r = []"
    by (simp add: issues_of_def case_prod_beta n)
  then have "fallback_with tbl r = all_clear" by (simp add: fallback_with_def)
  moreover have "contains ''optimal'' (map to_lower all_clear)"
    by (simp add: all_clear_def to_lower_def)
  ultimately show ?thesis by simp
qed

theorem in_range_all_clear_witness:
  "get_fallback_recommendation
     \<lparr> timestamp = 0, temperature_c = 18, humidity_percent = 70, co2_ppm = 400,
       light_lux = 10000 \<rparr>
     = all_clear
   \<and> contains ''optimal'' (map to_lower (get_fallback_recommendation
        \<lparr> timestamp = 0, temperature_c = 18, humidity_percent = 70, co2_ppm = 400,
          light_lux = 10000 \<rparr>))"
  using in_range_all_clear [of OPTIMAL_RANGES
     "\<lparr> timestamp = 0, temperature_c = 18, humidity_percent = 70, co2_ppm = 400,
        light_lux = 10000 \<rparr>"]
  by (auto simp add: OPTIMAL_RANGES_def get_fallback_recommendation_def)

section \<open>Mock simulator\<close>

text \<open>
  C4.  Whatever the four noise terms are, a reading of the mock simulator has its
  humidity between 0 and 100, its CO2 at 300 or more and its light at 0 or more, and
  its temperature is the baseline 22.0 plus the temperature noise term.
\<close>

theorem mock_read_clamped:
  "0 \<le> humidity_percent (MockSensors_read MockSensors_init now u_temp u_hum u_co2 u_light)
   \<and> humidity_percent (MockSensors_read MockSensors_init now u_temp u_hum u_co2 u_light) \<le> 100
   \<and> 300 \<le> co2_ppm (MockSensors_read MockSensors_init now u_temp u_hum u_co2 u_light)
   \<and> 0 \<le> light_lux (MockSensors_read MockSensors_init now u_temp u_hum u_co2 u_light)
   \<and> temperature_c (MockSensors_read MockSensors_init now u_temp u_hum u_co2 u_light) = 22.0 + u_temp"
  by (simp add: MockSensors_read_def MockSensors_init_def)

section \<open>Word wrap\<close>

lemma wrap_step_inv:
  assumes "length word \<le> 56" and "length (fst st) \<le> 58" and "all_within 58 (snd st)"
  shows "length (fst (wrap_step st word)) \<le> 58 \<and> all_within 58 (snd (wrap_step st word))"
  using assms by (cases st) (auto simp add: wrap_step_def all_within_def)

lemma wrap_fold_inv:
  assumes "all_within 56 ws" and "length (fst st) \<le> 58" and "all_within 58 (snd st)"
  shows "length (fst (foldl wrap_step st ws)) \<le> 58
       \<and> all_within 58 (snd (foldl wrap_step st ws))"
  using assms
proof (induction ws arbitrary: st)
  case Nil
  then show ?case by simp
next
  case (Cons w ws)
  from Cons.prems have w: "length w \<le> 56" and ws: "all_within 56 ws"
    by (simp_all add: all_within_def)
  from wrap_step_inv [OF w Cons.prems(2) Cons.prems(3)]
  have "length (fst (wrap_step st w)) \<le> 58" and "all_within 58 (snd (wrap_step st w))"
    by simp_all
  from Cons.IH [OF ws this] show ?case by simp
qed

lemma wrap_lines_short:
  assumes "all_within 56 (split text)"
  shows "all_within 58 (wrap_lines text)"
proof -
  obtain line printed where f: "foldl wrap_step (''  '', []) (split text) = (line, printed)"
    by (cases "foldl wrap_step (''  '', []) (split text)")
  from wrap_fold_inv [OF assms, of "(''  '', [])"] f
  have "length line \<le> 58" and "all_within 58 printed" by (simp_all add: all_within_def)
  then show ?thesis by (simp add: wrap_lines_def f all_within_def)
qed

lemma space_is_space: "is_space CHR '' ''"
  by (simp add: is_space_def)

lemma split_from_solid:
  assumes "list_all (\<lambda>c. \<not> is_space c) acc"
  shows "list_all solid (split_from acc s)"
  using assms
proof (induction s arbitrary: acc)
  case Nil
  then show ?case by (simp add: solid_def)
next
  case (Cons c cs)
  have e: "list_all solid (split_from [] cs)" by (rule Cons.IH) simp
  have a: "acc \<noteq> [] \<Longrightarrow> solid acc" using Cons.prems by (simp add: solid_def)
  show ?case
  proof (cases "is_space c")
    case True
    with e a show ?thesis by simp
  next
    case False
    with Cons.prems have "list_all (\<lambda>c. \<not> is_space c) (acc @ [c])" by simp
    from Cons.IH [OF this] False show ?thesis by simp
  qed
qed

lemma split_solid: "list_all solid (split s)"
  unfolding split_def by (rule split_from_solid) simp

lemma split_from_word:
  assumes "list_all (\<lambda>c. \<not> is_space c) w"
  shows "split_from acc (w @ s) = split_from (acc @ w) s"
  using assms by (induction w arbitrary: acc) simp_all

lemma split_join:
  assumes "list_all solid ws"
  shows "split_from [] (join '' '' ws) = ws"
  using assms
proof (induction "'' ''" ws rule: join.induct)
  case 1
  show ?case by simp
next
  case (2 x)
  then have "list_all (\<lambda>c. \<not> is_space c) x" and "x \<noteq> []" by (simp_all add: solid_def)
  with split_from_word [of x "[]" "[]"] show ?case by simp
next
  case (3 x y ys)
  then have x: "list_all (\<lambda>c. \<not> is_space c) x" "x \<noteq> []" by (simp_all add: solid_def)
  from 3 have ih: "split_from [] (join '' '' (y # ys)) = y # ys" by simp
  have "split_from [] (x @ '' '' @ join '' '' (y # ys))
          = split_from x ('' '' @ join '' '' (y # ys))"
    using split_from_word [OF x(1), of "[]"] by simp
  also have "\<dots> = x # split_from [] (join '' '' (y # ys))"
    using x(2) by (simp add: space_is_space)
  finally show ?case using ih by simp
qed

lemma split_indent_line:
  assumes "list_all solid ws"
  shows "split (indent_line ws) = ws"
  using split_join [OF assms] by (simp add: split_def indent_line_def space_is_space)

lemma join_nonempty: "x \<noteq> [] \<Longrightarrow> join sep (x # xs) \<noteq> []"
  by (cases xs) simp_all

lemma indent_line_empty:
  assumes "list_all solid ws"
  shows "indent_line ws = ''  '' \<longleftrightarrow> ws = []"
proof (cases ws)
  case Nil
  then show ?thesis by (simp add: indent_line_def)
next
  case (Cons x xs)
  with assms have "x \<noteq> []" by (simp add: solid_def)
  from join_nonempty [OF this] Cons show ?thesis by (simp add: indent_line_def)
qed

lemma join_snoc: "ws \<noteq> [] \<Longrightarrow> join sep (ws @ [w]) = join sep ws @ sep @ w"
  by (induction sep ws rule: join.induct) simp_all

lemma strip_nonempty: "strip s \<noteq> [] \<longleftrightarrow> (\<exists>c \<in> set s. \<not> is_space c)"
proof -
  have "dropWhile is_space (rev (dropWhile is_space s)) \<noteq> [] \<longleftrightarrow> dropWhile is_space s \<noteq> []"
  proof (cases "dropWhile is_space s")
    case Nil
    show ?thesis unfolding Nil by simp
  next
    case (Cons c cs)
    then have "\<not> is_space c" by (metis hd_dropWhile list.sel(1) list.distinct(1))
    then have "\<exists>x \<in> set (rev (c # cs)). \<not> is_space x" by auto
    then have "dropWhile is_space (rev (c # cs)) \<noteq> []"
      by (simp only: dropWhile_eq_Nil_conv) blast
    with Cons show ?thesis by simp
  qed
  then have "strip s \<noteq> [] \<longleftrightarrow> dropWhile is_space s \<noteq> []" by (simp add: strip_def)
  then show ?thesis by (simp add: dropWhile_eq_Nil_conv)
qed

lemma strip_indent_line:
  assumes "list_all solid ws"
  shows "strip (indent_line ws) \<noteq> [] \<longleftrightarrow> ws \<noteq> []"
proof (cases ws)
  case Nil
  then show ?thesis by (simp add: indent_line_def strip_def space_is_space)
next
  case (Cons x xs)
  with assms obtain c cs where x: "x = c # cs" and c: "\<not> is_space c"
    by (cases x) (auto simp add: solid_def)
  have "c \<in> set (join '' '' (x # xs))" using x by (cases xs) simp_all
  with c Cons show ?thesis by (auto simp add: strip_nonempty indent_line_def)
qed

lemma wrap_step_words:
  assumes "solid w" and "list_all solid cur"
  shows "\<exists>cur' printed'.
           wrap_step (indent_line cur, printed) w = (indent_line cur', printed')
           \<and> list_all solid cur'
           \<and> concat (map split printed') @ cur' = concat (map split printed) @ cur @ [w]"
proof (cases "length (indent_line cur) + length w + 1 > 58")
  case True
  then have "wrap_step (indent_line cur, printed) w = (indent_line [w], printed @ [indent_line cur])"
    by (simp add: wrap_step_def indent_line_def)
  moreover have "concat (map split (printed @ [indent_line cur])) @ [w]
                   = concat (map split printed) @ cur @ [w]"
    by (simp add: split_indent_line [OF assms(2)])
  moreover have "list_all solid [w]" using assms(1) by simp
  ultimately show ?thesis by blast
next
  case False
  have "wrap_step (indent_line cur, printed) w = (indent_line (cur @ [w]), printed)"
  proof (cases "cur = []")
    case True
    with False show ?thesis by (simp add: wrap_step_def indent_line_def)
  next
    case ne: False
    with indent_line_empty [OF assms(2)] have "indent_line cur \<noteq> ''  ''" by simp
    with False ne show ?thesis
      by (simp add: wrap_step_def) (simp add: indent_line_def join_snoc)
  qed
  moreover have "list_all solid (cur @ [w])" using assms by simp
  moreover have "concat (map split printed) @ (cur @ [w]) = concat (map split printed) @ cur @ [w]"
    by simp
  ultimately show ?thesis by blast
qed

lemma wrap_fold_words:
  assumes "list_all solid ws" and "list_all solid cur"
  shows "\<exists>cur' printed'.
           foldl wrap_step (indent_line cur, printed) ws = (indent_line cur', printed')
           \<and> list_all solid cur'
           \<and> concat (map split printed') @ cur' = concat (map split printed) @ cur @ ws"
  using assms
proof (induction ws arbitrary: cur printed)
  case Nil
  then show ?case by simp
next
  case (Cons w ws)
  then have w: "solid w" and ws: "list_all solid ws" by simp_all
  from wrap_step_words [OF w Cons.prems(2), of printed]
  obtain c1 p1 where s: "wrap_step (indent_line cur, printed) w = (indent_line c1, p1)"
    and c1: "list_all solid c1"
    and k: "concat (map split p1) @ c1 = concat (map split printed) @ cur @ [w]" by blast
  from Cons.IH [OF ws c1, of p1]
  obtain c2 p2 where f: "foldl wrap_step (indent_line c1, p1) ws = (indent_line c2, p2)"
    and c2: "list_all solid c2"
    and k2: "concat (map split p2) @ c2 = concat (map split p1) @ c1 @ ws" by blast
  from k k2 have "concat (map split p2) @ c2 = concat (map split printed) @ cur @ w # ws"
    by simp
  moreover from s f have "foldl wrap_step (indent_line cur, printed) (w # ws) = (indent_line c2, p2)"
    by simp
  ultimately show ?case using c2 by blast
qed

lemma wrap_lines_words: "concat (map split (wrap_lines text)) = split text"
proof -
  from wrap_fold_words [where ws = "split text" and cur = "[]" and printed = "[]"] split_solid
  obtain cur printed where
    f: "foldl wrap_step (''  '', []) (split text) = (indent_line cur, printed)"
    and c: "list_all solid cur"
    and k: "concat (map split printed) @ cur = split text"
    by (auto simp add: indent_line_def)
  show ?thesis
  proof (cases "cur = []")
    case True
    with strip_indent_line [OF c] k f show ?thesis by (simp add: wrap_lines_def)
  next
    case False
    with strip_indent_line [OF c] have "strip (indent_line cur) \<noteq> []" by simp
    with k f show ?thesis by (simp add: wrap_lines_def split_indent_line [OF c])
  qed
qed


lemma wrap_step_length: "2 \<le> length (fst st) \<Longrightarrow> 2 \<le> length (fst (wrap_step st w))"
  by (cases st) (simp add: wrap_step_def)

lemma wrap_step_printed: "set (snd st) \<subseteq> set (snd (wrap_step st w))"
  by (cases st) (auto simp add: wrap_step_def)

lemma wrap_fold_printed: "set (snd st) \<subseteq> set (snd (foldl wrap_step st ws))"
proof (induction ws arbitrary: st)
  case Nil
  show ?case by simp
next
  case (Cons w ws)
  from wrap_step_printed [of st w] Cons [of "wrap_step st w"] show ?case by auto
qed

lemma long_word_kept:
  assumes "56 < length w"
  shows "''  '' @ w \<in> set (snd (foldl wrap_step (''  '' @ w, printed) ws))
       \<or> fst (foldl wrap_step (''  '' @ w, printed) ws) = ''  '' @ w"
proof (cases ws)
  case Nil
  then show ?thesis by simp
next
  case (Cons x xs)
  from assms have "wrap_step (''  '' @ w, printed) x = (''  '' @ x, printed @ [''  '' @ w])"
    by (simp add: wrap_step_def)
  with wrap_fold_printed [of "(''  '' @ x, printed @ [''  '' @ w])" xs] Cons
  show ?thesis by auto
qed

lemma long_word_line:
  assumes "w \<in> set ws" and "56 < length w" and "2 \<le> length (fst st)"
  shows "''  '' @ w \<in> set (snd (foldl wrap_step st ws))
       \<or> fst (foldl wrap_step st ws) = ''  '' @ w"
  using assms
proof (induction ws arbitrary: st)
  case Nil
  then show ?case by simp
next
  case (Cons x xs)
  show ?case
  proof (cases "x = w")
    case True
    obtain line printed where st: "st = (line, printed)" by (cases st)
    with Cons.prems True have "wrap_step st x = (''  '' @ w, printed @ [line])"
      by (simp add: wrap_step_def)
    with long_word_kept [OF Cons.prems(2), of "printed @ [line]" xs] show ?thesis by simp
  next
    case False
    with Cons.prems have "w \<in> set xs" by simp
    from Cons.IH [OF this Cons.prems(2) wrap_step_length [OF Cons.prems(3)], of x]
    show ?thesis by simp
  qed
qed

lemma wrap_lines_long_word:
  assumes "w \<in> set (split text)" and "56 < length w"
  shows "''  '' @ w \<in> set (wrap_lines text)"
proof -
  obtain line printed where f: "foldl wrap_step (''  '', []) (split text) = (line, printed)"
    by (cases "foldl wrap_step (''  '', []) (split text)")
  from split_solid [of "text"] assms(1) have "solid w" by (simp add: list_all_iff)
  then have "\<exists>c \<in> set (''  '' @ w). \<not> is_space c"
    by (cases w) (auto simp add: solid_def)
  then have s: "strip (''  '' @ w) \<noteq> []" by (simp only: strip_nonempty)
  from long_word_line [OF assms, of "(''  '', [])"] f
  have "''  '' @ w \<in> set printed \<or> line = ''  '' @ w" by simp
  with s f show ?thesis by (auto simp add: wrap_lines_def)
qed

text \<open>
  C7, as the code has it.  For a text whose words have at most 56 characters each, every
  line printed for the advisory, its two-space indent included, has at most 58
  characters.  The loop neither breaks nor drops a word: the words of the printed lines,
  read in order, are the words of the text.  A word of more than 56 characters is printed
  whole on a line of its own, which is the indent followed by the word.
\<close>

theorem wrap_keeps_words:
  "(all_within 56 (split text) \<longrightarrow> all_within 58 (wrap_lines text))
   \<and> concat (map split (wrap_lines text)) = split text
   \<and> (\<forall>w \<in> set (split text). 56 < length w \<longrightarrow> ''  '' @ w \<in> set (wrap_lines text))"
  using wrap_lines_short [of "text"] wrap_lines_words [of "text"]
    wrap_lines_long_word [of _ "text"]
  by blast

text \<open>
  C7, as stated, fails: a text made of a single word of 57 characters is printed as an
  indent-only line followed by a line of 59 characters.
\<close>

theorem wrap_long_word_overflows:
  "\<not> all_within 58
       (wrap_lines ''aaaaaaaaaaaaaaaaaaaaaaaaaaaaaaaaaaaaaaaaaaaaaaaaaaaaaaaaa'')"
  by (simp add: wrap_lines_def split_def wrap_step_def all_within_def is_space_def strip_def)

theorem wrap_keeps_words_witness:
  "all_within 56 (split ''Temperature too high - improve ventilation | Humidity too low - mist leaves or use humidifier'')
   \<and> all_within 58 (wrap_lines ''Temperature too high - improve ventilation | Humidity too low - mist leaves or use humidifier'')
   \<and> concat (map split (wrap_lines ''Temperature too high - improve ventilation | Humidity too low - mist leaves or use humidifier'')) = split ''Temperature too high - improve ventilation | Humidity too low - mist leaves or use humidifier''
   \<and> ''aaaaaaaaaaaaaaaaaaaaaaaaaaaaaaaaaaaaaaaaaaaaaaaaaaaaaaaaa'' \<in> set (split ''aaaaaaaaaaaaaaaaaaaaaaaaaaaaaaaaaaaaaaaaaaaaaaaaaaaaaaaaa'')
   \<and> 56 < length ''aaaaaaaaaaaaaaaaaaaaaaaaaaaaaaaaaaaaaaaaaaaaaaaaaaaaaaaaa''
   \<and> ''  '' @ ''aaaaaaaaaaaaaaaaaaaaaaaaaaaaaaaaaaaaaaaaaaaaaaaaaaaaaaaaa'' \<in> set (wrap_lines ''aaaaaaaaaaaaaaaaaaaaaaaaaaaaaaaaaaaaaaaaaaaaaaaaaaaaaaaaa'')"
proof -
  have h: "all_within 56 (split ''Temperature too high - improve ventilation | Humidity too low - mist leaves or use humidifier'')"
    by (simp add: split_def is_space_def all_within_def)
  have m: "''aaaaaaaaaaaaaaaaaaaaaaaaaaaaaaaaaaaaaaaaaaaaaaaaaaaaaaaaa'' \<in> set (split ''aaaaaaaaaaaaaaaaaaaaaaaaaaaaaaaaaaaaaaaaaaaaaaaaaaaaaaaaa'')"
    by (simp add: split_def is_space_def)
  have l: "56 < length ''aaaaaaaaaaaaaaaaaaaaaaaaaaaaaaaaaaaaaaaaaaaaaaaaaaaaaaaaa''"
    by simp
  from h wrap_keeps_words [of "''Temperature too high - improve ventilation | Humidity too low - mist leaves or use humidifier''"]
  have a: "all_within 58 (wrap_lines ''Temperature too high - improve ventilation | Humidity too low - mist leaves or use humidifier'') \<and> concat (map split (wrap_lines ''Temperature too high - improve ventilation | Humidity too low - mist leaves or use humidifier'')) = split ''Temperature too high - improve ventilation | Humidity too low - mist leaves or use humidifier''"
    by blast
  from m l wrap_keeps_words [of "''aaaaaaaaaaaaaaaaaaaaaaaaaaaaaaaaaaaaaaaaaaaaaaaaaaaaaaaaa''"]
  have b: "''  '' @ ''aaaaaaaaaaaaaaaaaaaaaaaaaaaaaaaaaaaaaaaaaaaaaaaaaaaaaaaaa'' \<in> set (wrap_lines ''aaaaaaaaaaaaaaaaaaaaaaaaaaaaaaaaaaaaaaaaaaaaaaaaaaaaaaaaa'')"
    by blast
  from h m l a b show ?thesis by blast
qed

section \<open>Recommendation with fallback\<close>

text \<open>
  C8.  \<open>get_recommendation\<close> always returns a text.  It returns the rule-based fallback
  text when the advisor has no client (which is the case when no key is configured),
  when the call of the service raises, and when the response is malformed, that is has
  no first content block or a first block without text.
\<close>

theorem recommendation_never_raises:
  "(\<exists>t. get_recommendation build_prompt self reading = Inr t)
   \<and> (advisor_client self = None \<longrightarrow>
        get_recommendation build_prompt self reading = Inr (get_fallback_recommendation reading))
   \<and> (\<forall>create e. advisor_client self = Some create
          \<and> create (build_prompt reading) = Inl e \<longrightarrow>
        get_recommendation build_prompt self reading = Inr (get_fallback_recommendation reading))
   \<and> (\<forall>create content e. advisor_client self = Some create
          \<and> create (build_prompt reading) = Inr content \<and> first_text content = Inl e \<longrightarrow>
        get_recommendation build_prompt self reading = Inr (get_fallback_recommendation reading))
   \<and> (\<not> truthy (py_or key env_key) \<longrightarrow>
        advisor_client (AIAdvisor_init anthropic key env_key) = None)"
proof -
  have total: "\<exists>t. get_recommendation build_prompt self reading = Inr t"
    by (simp add: get_recommendation_def Let_def split: option.split sum.split)
  have none: "advisor_client self = None \<longrightarrow>
        get_recommendation build_prompt self reading = Inr (get_fallback_recommendation reading)"
    by (simp add: get_recommendation_def)
  have raised: "\<forall>create e. advisor_client self = Some create
          \<and> create (build_prompt reading) = Inl e \<longrightarrow>
        get_recommendation build_prompt self reading = Inr (get_fallback_recommendation reading)"
    by (simp add: get_recommendation_def ask_service_def)
  have malformed: "\<forall>create content e. advisor_client self = Some create
          \<and> create (build_prompt reading) = Inr content \<and> first_text content = Inl e \<longrightarrow>
        get_recommendation build_prompt self reading = Inr (get_fallback_recommendation reading)"
    by (simp add: get_recommendation_def ask_service_def)
  have init: "\<not> truthy (py_or key env_key) \<longrightarrow>
        advisor_client (AIAdvisor_init anthropic key env_key) = None"
    by (simp add: AIAdvisor_init_def truthy_def Let_def split: option.split)
  from total none raised malformed init show ?thesis by blast
qed

theorem recommendation_never_raises_witness:
  "get_recommendation (\<lambda>r. ''prompt'')
     \<lparr> advisor_key = Some ''k'', advisor_client = Some (\<lambda>p. Inl (ServiceError ''API Error'')) \<rparr>
     \<lparr> timestamp = 0, temperature_c = 10, humidity_percent = 60, co2_ppm = 450, light_lux = 5000 \<rparr>
   = Inr ''Temperature too low - consider warming the area''
   \<and> get_recommendation (\<lambda>r. ''prompt'')
     \<lparr> advisor_key = Some ''k'', advisor_client = Some (\<lambda>p. Inr []) \<rparr>
     \<lparr> timestamp = 0, temperature_c = 10, humidity_percent = 60, co2_ppm = 450, light_lux = 5000 \<rparr>
   = Inr ''Temperature too low - consider warming the area''
   \<and> get_recommendation (\<lambda>r. ''prompt'')
     (AIAdvisor_init (\<lambda>k p. Inr [TextBlock ''fine'']) None None)
     \<lparr> timestamp = 0, temperature_c = 10, humidity_percent = 60, co2_ppm = 450, light_lux = 5000 \<rparr>
   = Inr ''Temperature too low - consider warming the area''"
proof -
  let ?r = "\<lparr> timestamp = 0, temperature_c = 10, humidity_percent = 60, co2_ppm = 450,
               light_lux = 5000 \<rparr>"
  have fb: "get_fallback_recommendation ?r = ''Temperature too low - consider warming the area''"
    by (simp add: get_fallback_recommendation_def fallback_with_def issues_of_def
          OPTIMAL_RANGES_def)
  have i: "advisor_client (AIAdvisor_init (\<lambda>k p. Inr [TextBlock ''fine'']) None None) = None"
    using recommendation_never_raises [of "\<lambda>r. ''prompt''"
      "\<lparr> advisor_key = None, advisor_client = None \<rparr>" ?r None None
      "\<lambda>k p. Inr [TextBlock ''fine'']"]
    by (simp add: truthy_def py_or_def)
  show ?thesis
    using recommendation_never_raises
      [of "\<lambda>r. ''prompt''"
          "\<lparr> advisor_key = Some ''k'', advisor_client = Some (\<lambda>p. Inl (ServiceError ''API Error'')) \<rparr>"
          ?r]
      recommendation_never_raises
      [of "\<lambda>r. ''prompt''"
          "\<lparr> advisor_key = Some ''k'', advisor_client = Some (\<lambda>p. Inr []) \<rparr>"
          ?r]
      recommendation_never_raises
      [of "\<lambda>r. ''prompt''" "AIAdvisor_init (\<lambda>k p. Inr [TextBlock ''fine'']) None None" ?r]
      i
    by (simp add: fb first_text_def)
qed

section \<open>Telemetry push\<close>

text \<open>
  C9.  A disabled client answers False to \<open>push_reading\<close>, \<open>push_analysis\<close> and
  \<open>push_alert\<close> and hands no request to the network; the client is disabled when the
  endpoint or the credential is missing or empty.  No push operation raises, and an
  enabled client whose POST raises answers False.
\<close>

theorem push_best_effort:
  "(\<not> enabled self \<longrightarrow>
      push_reading w self reading = (Inr False, [])
      \<and> push_analysis w self reading recommendation = (Inr False, [])
      \<and> push_alert w self alert_type message opt_reading = (Inr False, []))
   \<and> (\<exists>b. fst (push_reading w self reading) = Inr b)
   \<and> (\<exists>b. fst (push_analysis w self reading recommendation) = Inr b)
   \<and> (\<exists>b. fst (push_alert w self alert_type message opt_reading) = Inr b)
   \<and> (\<forall>e. enabled self \<and> post w (reading_request w self reading) = Inl e \<longrightarrow>
         fst (push_reading w self reading) = Inr False)
   \<and> (\<forall>e. enabled self
           \<and> post w (analysis_request w self reading recommendation) = Inl e \<longrightarrow>
         fst (push_analysis w self reading recommendation) = Inr False)
   \<and> (\<forall>e. enabled self
           \<and> post w (alert_request w self alert_type message opt_reading) = Inl e \<longrightarrow>
         fst (push_alert w self alert_type message opt_reading) = Inr False)
   \<and> (\<not> truthy (py_or url_arg env_url) \<or> \<not> truthy (py_or key_arg env_key) \<longrightarrow>
         \<not> enabled (APIClient_init url_arg key_arg env_url env_key))"
proof -
  have send_total: "\<exists>b. fst (send w req) = Inr b" for req
    by (cases "post w req") (auto simp add: send_def)
  have send_raise: "fst (send w req) = Inr False" if "post w req = Inl e" for req e
    using that by (simp add: send_def)
  have disabled: "\<not> enabled self \<longrightarrow>
      push_reading w self reading = (Inr False, [])
      \<and> push_analysis w self reading recommendation = (Inr False, [])
      \<and> push_alert w self alert_type message opt_reading = (Inr False, [])"
    by (simp add: push_reading_def push_analysis_def push_alert_def)
  have t1: "\<exists>b. fst (push_reading w self reading) = Inr b"
    using send_total by (auto simp add: push_reading_def)
  have t2: "\<exists>b. fst (push_analysis w self reading recommendation) = Inr b"
    using send_total by (auto simp add: push_analysis_def)
  have t3: "\<exists>b. fst (push_alert w self alert_type message opt_reading) = Inr b"
    using send_total by (auto simp add: push_alert_def)
  have r1: "\<forall>e. enabled self \<and> post w (reading_request w self reading) = Inl e \<longrightarrow>
         fst (push_reading w self reading) = Inr False"
    using send_raise by (simp add: push_reading_def)
  have r2: "\<forall>e. enabled self
           \<and> post w (analysis_request w self reading recommendation) = Inl e \<longrightarrow>
         fst (push_analysis w self reading recommendation) = Inr False"
    using send_raise by (simp add: push_analysis_def)
  have r3: "\<forall>e. enabled self
           \<and> post w (alert_request w self alert_type message opt_reading) = Inl e \<longrightarrow>
         fst (push_alert w self alert_type message opt_reading) = Inr False"
    using send_raise by (simp add: push_alert_def)
  have init: "\<not> truthy (py_or url_arg env_url) \<or> \<not> truthy (py_or key_arg env_key) \<longrightarrow>
         \<not> enabled (APIClient_init url_arg key_arg env_url env_key)"
    by (auto simp add: APIClient_init_def Let_def)
  from disabled t1 t2 t3 r1 r2 r3 init show ?thesis by blast
qed


theorem push_best_effort_witness:
  "\<not> enabled (APIClient_init None None None (Some ''secret''))
   \<and> push_reading
        \<lparr> post = (\<lambda>q. Inr 200), clock = 7, isoformat = (\<lambda>n. ''2026-01-14T10:30:00'') \<rparr>
        (APIClient_init None None None (Some ''secret''))
        \<lparr> timestamp = 0, temperature_c = 22, humidity_percent = 65, co2_ppm = 450,
          light_lux = 5000 \<rparr>
      = (Inr False, [])
   \<and> enabled (APIClient_init (Some ''http://host'') (Some ''secret'') None None)
   \<and> fst (push_reading
        \<lparr> post = (\<lambda>q. Inl (ServiceError ''Network error'')), clock = 7,
          isoformat = (\<lambda>n. ''2026-01-14T10:30:00'') \<rparr>
        (APIClient_init (Some ''http://host'') (Some ''secret'') None None)
        \<lparr> timestamp = 0, temperature_c = 22, humidity_percent = 65, co2_ppm = 450,
          light_lux = 5000 \<rparr>)
      = Inr False"
proof -
  let ?r = "\<lparr> timestamp = 0, temperature_c = 22, humidity_percent = 65, co2_ppm = 450,
               light_lux = 5000 \<rparr>"
  let ?up = "\<lparr> post = (\<lambda>q. Inr 200), clock = 7, isoformat = (\<lambda>n. ''2026-01-14T10:30:00'') \<rparr>"
  let ?down = "\<lparr> post = (\<lambda>q. Inl (ServiceError ''Network error'')), clock = 7,
                  isoformat = (\<lambda>n. ''2026-01-14T10:30:00'') \<rparr>"
  let ?off = "APIClient_init None None None (Some ''secret'')"
  let ?on = "APIClient_init (Some ''http://host'') (Some ''secret'') None None"
  have off: "\<not> enabled ?off"
    using push_best_effort [of ?off ?up ?r "''ok''" "''kind''" "''msg''" None
                               None None None "Some ''secret''"]
    by (simp add: truthy_def py_or_def)
  have on: "enabled ?on"
    by (simp add: APIClient_init_def truthy_def py_or_def)
  from off on
    push_best_effort [of ?off ?up ?r "''ok''" "''kind''" "''msg''" None
                         None None None "Some ''secret''"]
    push_best_effort [of ?on ?down ?r "''ok''" "''kind''" "''msg''" None
                         None None None None]
  show ?thesis by simp
qed

end
